theory Spec2Isabelle
  imports Complex_Main "HOL-Library.Sublist"
begin

section \<open>Edit distance (\<open>levenshteinDistance\<close>, src/lib/search-utils.ts lines 69-90)\<close>

text \<open>
  The source allocates a table \<open>dp\<close> of \<open>m + 1\<close> rows and \<open>n + 1\<close> columns filled with
  zeros, writes the first column and the first row, and then fills the remaining cells
  row by row with two nested \<open>for\<close> loops. The table is modelled as a list of rows; the
  assignment \<open>dp[i][j] = v\<close> is \<open>store\<close> and the read \<open>dp[i][j]\<close> is \<open>cell\<close>. Each
  \<open>for\<close> loop is a \<open>fold\<close> over the interval of its loop variable. Strings are lists of
  code units; the comparison \<open>a[i - 1] === b[j - 1]\<close> is equality of code units, so the
  model is polymorphic in the type of code units. The rows are created one by one
  (\<open>.map(() => Array(n + 1).fill(0))\<close>), so no two rows share storage and a list of
  lists is faithful. A read or write outside the table would behave differently in the
  source (\<open>undefined\<close>, or a \<open>TypeError\<close> on a missing row) and in HOL; the invariant
  \<open>filled\<close> below carries the dimensions of the table through all loops, and every
  index the loops use is within them.
\<close>

definition store :: "nat list list \<Rightarrow> nat \<Rightarrow> nat \<Rightarrow> nat \<Rightarrow> nat list list" where
  "store dp i j v = dp[i := (dp ! i)[j := v]]"

definition cell :: "nat list list \<Rightarrow> nat \<Rightarrow> nat \<Rightarrow> nat" where
  "cell dp i j = dp ! i ! j"

definition init_table :: "nat \<Rightarrow> nat \<Rightarrow> nat list list" where
  "init_table m n = replicate (m + 1) (replicate (n + 1) 0)"

definition fill_col0 :: "nat \<Rightarrow> nat list list \<Rightarrow> nat list list" where
  "fill_col0 m dp = fold (\<lambda>i dp. store dp i 0 i) [0..<Suc m] dp"

definition fill_row0 :: "nat \<Rightarrow> nat list list \<Rightarrow> nat list list" where
  "fill_row0 n dp = fold (\<lambda>j dp. store dp 0 j j) [0..<Suc n] dp"

definition fill_cell :: "'a list \<Rightarrow> 'a list \<Rightarrow> nat \<Rightarrow> nat \<Rightarrow> nat list list \<Rightarrow> nat list list" where
  "fill_cell a b i j dp =
     (if a ! (i - 1) = b ! (j - 1)
      then store dp i j (cell dp (i - 1) (j - 1))
      else store dp i j
             (1 + min (cell dp (i - 1) j) (min (cell dp i (j - 1)) (cell dp (i - 1) (j - 1)))))"

definition fill_row :: "'a list \<Rightarrow> 'a list \<Rightarrow> nat \<Rightarrow> nat list list \<Rightarrow> nat list list" where
  "fill_row a b i dp = fold (fill_cell a b i) [1..<Suc (length b)] dp"

definition fill_table :: "'a list \<Rightarrow> 'a list \<Rightarrow> nat list list \<Rightarrow> nat list list" where
  "fill_table a b dp = fold (fill_row a b) [1..<Suc (length a)] dp"

definition levenshteinDistance :: "'a list \<Rightarrow> 'a list \<Rightarrow> nat" where
  "levenshteinDistance a b =
     (let m = length a;
          n = length b;
          dp = init_table m n;
          dp = fill_col0 m dp;
          dp = fill_row0 n dp;
          dp = fill_table a b dp
      in cell dp m n)"


subsection \<open>Edit scripts\<close>

text \<open>
  The contract of \<open>levenshteinDistance\<close> speaks of the minimum number of single-character
  insertions, deletions and substitutions that transform \<open>a\<close> into \<open>b\<close>. This second
  definition follows those words and is what the table of the source is compared with:
  an edit names a position and acts on the string there, a script is a sequence of edits
  applied one after the other, and an edit at a position outside the string is undefined.
\<close>

datatype 'a edit = Insert nat 'a | Delete nat | Substitute nat 'a

fun apply_edit :: "'a edit \<Rightarrow> 'a list \<Rightarrow> 'a list option" where
  "apply_edit (Insert i c) xs =
     (if i \<le> length xs then Some (take i xs @ c # drop i xs) else None)"
| "apply_edit (Delete i) xs =
     (if i < length xs then Some (take i xs @ drop (Suc i) xs) else None)"
| "apply_edit (Substitute i c) xs =
     (if i < length xs then Some (xs[i := c]) else None)"

fun apply_edits :: "'a edit list \<Rightarrow> 'a list \<Rightarrow> 'a list option" where
  "apply_edits [] xs = Some xs"
| "apply_edits (e # es) xs =
     (case apply_edit e xs of None \<Rightarrow> None | Some ys \<Rightarrow> apply_edits es ys)"

text \<open>
  The recurrence the table implements, read on reversed prefixes: cell \<open>(i, j)\<close> of the
  table holds \<open>lev_rec (rev (take i a)) (rev (take j b))\<close>. It is used in proofs only.
\<close>

fun lev_rec :: "'a list \<Rightarrow> 'a list \<Rightarrow> nat" where
  "lev_rec [] ys = length ys"
| "lev_rec (x # xs) [] = Suc (length xs)"
| "lev_rec (x # xs) (y # ys) =
     (if x = y then lev_rec xs ys
      else 1 + min (lev_rec xs (y # ys)) (min (lev_rec (x # xs) ys) (lev_rec xs ys)))"

definition pre :: "'a list \<Rightarrow> 'a list \<Rightarrow> nat \<Rightarrow> nat \<Rightarrow> nat" where
  "pre a b i j = lev_rec (rev (take i a)) (rev (take j b))"

definition dims :: "nat \<Rightarrow> nat \<Rightarrow> nat list list \<Rightarrow> bool" where
  "dims m n dp \<longleftrightarrow> length dp = Suc m \<and> (\<forall>row \<in> set dp. length row = Suc n)"

definition filled :: "'a list \<Rightarrow> 'a list \<Rightarrow> nat \<Rightarrow> nat \<Rightarrow> nat list list \<Rightarrow> bool" where
  "filled a b i j dp \<longleftrightarrow>
     dims (length a) (length b) dp \<and>
     (\<forall>i' j'. i' \<le> length a \<and> j' \<le> length b \<and>
              (i' < i \<or> (i' = i \<and> j' < j) \<or> i' = 0 \<or> j' = 0)
        \<longrightarrow> cell dp i' j' = pre a b i' j')"


section \<open>Strings of the source language\<close>

text \<open>
  A JavaScript string is a sequence of UTF-16 code units. The model uses \<open>string\<close>, whose
  characters are read as the code units \<open>U+0000\<close> to \<open>U+00FF\<close> (Latin-1); the theorems
  below speak of strings over this range. On it \<open>toLowerCase\<close> maps \<open>A\<close>-\<open>Z\<close>,
  \<open>U+00C0\<close>-\<open>U+00D6\<close> and \<open>U+00D8\<close>-\<open>U+00DE\<close> to the code unit 32 above and leaves
  every other code unit alone, and the white space of \<open>trim\<close> and of the regular
  expression class \<open>\s\<close> is tab, line feed, vertical tab, form feed, carriage return,
  space and no-break space. Outside this range \<open>toLowerCase\<close> can change the number of
  code units (\<open>U+0130\<close> becomes \<open>U+0069 U+0307\<close>); no theorem below relies on
  lowercasing keeping the length of a string.
\<close>

definition isWhiteSpace :: "char \<Rightarrow> bool" where
  "isWhiteSpace c \<longleftrightarrow> (of_char c :: nat) \<in> {9, 10, 11, 12, 13, 32, 160}"

definition toLowerCase_unit :: "char \<Rightarrow> char" where
  "toLowerCase_unit c =
     (let n = (of_char c :: nat)
      in if (65 \<le> n \<and> n \<le> 90) \<or> (192 \<le> n \<and> n \<le> 222 \<and> n \<noteq> 215)
         then char_of (n + 32) else c)"

definition toLowerCase :: "string \<Rightarrow> string" where
  "toLowerCase s = map toLowerCase_unit s"

definition trim :: "string \<Rightarrow> string" where
  "trim s = rev (dropWhile isWhiteSpace (rev (dropWhile isWhiteSpace s)))"

text \<open>
  \<open>text.includes(term)\<close>, named \<open>includes_str\<close> here: is there a position of
  \<open>text\<close> at which \<open>term\<close> starts. The empty string is included in every string.
\<close>

fun includes_str :: "'a list \<Rightarrow> 'a list \<Rightarrow> bool" where
  "includes_str [] s \<longleftrightarrow> s = []"
| "includes_str (c # cs) s \<longleftrightarrow> prefix s (c # cs) \<or> includes_str cs s"

text \<open>
  \<open>s.split(/\s+/)\<close>: the string is cut at every maximal run of white space. A run at the
  start or at the end leaves an empty string as first or last element, and the empty
  string splits into the one-element array holding the empty string, so the result is
  never empty.
\<close>

function split_ws :: "string \<Rightarrow> string list" where
  "split_ws [] = [[]]"
| "split_ws (c # cs) =
     (if isWhiteSpace c then [] # split_ws (dropWhile isWhiteSpace cs)
      else (case split_ws cs of
              [] \<Rightarrow> [[c]]
            | w # ws \<Rightarrow> (c # w) # ws))"
  by pat_completeness auto
termination
  by (relation "measure length") (auto intro: le_imp_less_Suc length_dropWhile_le)


section \<open>Fuzzy matching (\<open>fuzzyMatch\<close>, src/lib/search-utils.ts lines 2-66)\<close>

text \<open>The object literal \<open>abbreviations\<close>, its own properties in the order of the source.\<close>

definition abbreviations :: "(string \<times> string list) list" where
  "abbreviations =
     [(''maths'', [''math'', ''mathematics'']),
      (''math'', [''maths'', ''mathematics'']),
      (''sci'', [''science'']),
      (''eng'', [''english'']),
      (''bio'', [''biology'']),
      (''chem'', [''chemistry'']),
      (''phys'', [''physics'']),
      (''lit'', [''literature'']),
      (''hist'', [''history'']),
      (''geo'', [''geography'']),
      (''s1'', [''senior 1'']),
      (''s2'', [''senior 2'']),
      (''s3'', [''senior 3'']),
      (''s4'', [''senior 4'']),
      (''s5'', [''senior 5'']),
      (''s6'', [''senior 6''])]"

text \<open>
  \<open>abbreviations[term]\<close> is a property read on an object literal, so a key that is not an
  own property is looked up in \<open>Object.prototype\<close>. Every property found there is a
  function or an object: a truthy value that is not iterable. A key found nowhere reads
  as \<open>undefined\<close>.
\<close>

datatype property = Expansions "string list" | Inherited | Undefined

definition object_prototype_properties :: "string list" where
  "object_prototype_properties =
     [''constructor'', ''__defineGetter__'', ''__defineSetter__'', ''hasOwnProperty'',
      ''__lookupGetter__'', ''__lookupSetter__'', ''isPrototypeOf'', ''propertyIsEnumerable'',
      ''toString'', ''valueOf'', ''__proto__'', ''toLocaleString'']"

definition get_property :: "(string \<times> string list) list \<Rightarrow> string \<Rightarrow> property" where
  "get_property obj key =
     (case map_of obj key of
        Some v \<Rightarrow> Expansions v
      | None \<Rightarrow> if key \<in> set object_prototype_properties then Inherited else Undefined)"

datatype error = TypeError

text \<open>
  Lines 32-38: the guard \<open>if (abbreviations[term])\<close> passes for every value but
  \<open>undefined\<close> (an array is truthy even when empty), and
  \<open>for (const expansion of abbreviations[term])\<close> throws a \<open>TypeError\<close> when the value
  is not iterable. Nothing in \<open>fuzzyMatch\<close> catches the exception, so it leaves the
  function.
\<close>

definition forward_abbreviation :: "string \<Rightarrow> string \<Rightarrow> error + bool" where
  "forward_abbreviation term text =
     (case get_property abbreviations term of
        Undefined \<Rightarrow> Inr False
      | Inherited \<Rightarrow> Inl TypeError
      | Expansions expansions \<Rightarrow> Inr (list_ex (\<lambda>expansion. includes_str text expansion) expansions))"

text \<open>Lines 41-45: the loop over \<open>Object.entries(abbreviations)\<close>.\<close>

definition reverse_abbreviation :: "string \<Rightarrow> string \<Rightarrow> bool" where
  "reverse_abbreviation term text =
     list_ex (\<lambda>(abbr, expansions). term \<in> set expansions \<and> includes_str text abbr) abbreviations"

text \<open>Lines 48-63: the two nested loops over the words of the term and of the text.\<close>

definition word_distance_match :: "string \<Rightarrow> string \<Rightarrow> bool" where
  "word_distance_match term text =
     (let words = split_ws text;
          termWords = split_ws term
      in list_ex (\<lambda>termWord.
           length termWord \<ge> 4 \<and>
           list_ex (\<lambda>word.
             \<bar>int (length termWord) - int (length word)\<bar> \<le> 1 \<and> length word \<ge> 4 \<and>
             levenshteinDistance termWord word \<le> 1) words) termWords)"

definition fuzzyMatch :: "string \<Rightarrow> string \<Rightarrow> error + bool" where
  "fuzzyMatch searchTerm targetText =
     (let term = trim (toLowerCase searchTerm);
          text = toLowerCase targetText
      in if includes_str text term then Inr True
         else (case forward_abbreviation term text of
                 Inl e \<Rightarrow> Inl e
               | Inr True \<Rightarrow> Inr True
               | Inr False \<Rightarrow>
                   if reverse_abbreviation term text then Inr True
                   else if word_distance_match term text then Inr True
                   else Inr False))"


section \<open>Relevance score (\<open>calculateMatchScore\<close>, src/lib/search-utils.ts lines 93-130)\<close>

text \<open>
  The score is a JavaScript number (IEEE 754 binary64). It is modelled by an exact
  rational. The weights are small integers, which binary64 represents and adds exactly;
  the one place where the source can round is the quotient of the number of matching
  title words by the number of title words and its product with 70. In the concrete
  scores evaluated below that quotient is absent or equal to 1, so the values are the
  ones the source computes; the general bound \<open>calculateMatchScore_bounds\<close> is a
  statement about the exact quotient. The call of \<open>fuzzyMatch\<close> is the right operand of \<open>&&\<close> and
  is made only when the query has at least 4 code units; an exception it throws leaves
  \<open>calculateMatchScore\<close> as well.
\<close>

definition calculateMatchScore :: "string \<Rightarrow> string \<Rightarrow> string \<Rightarrow> string \<Rightarrow> error + rat" where
  "calculateMatchScore query title description subject =
     (let queryLower = toLowerCase query;
          score = 0;
          score = (if toLowerCase title = queryLower then score + 100
                   else if includes_str (toLowerCase title) queryLower then score + 90
                   else score);
          titleWords = split_ws (toLowerCase title);
          queryWords = split_ws queryLower;
          titleWordMatches =
            length (filter (\<lambda>w. list_ex (\<lambda>qw. includes_str w qw \<or> includes_str qw w) queryWords) titleWords);
          score = (if titleWordMatches > 0
                   then score + 70 * (of_nat titleWordMatches / of_nat (length titleWords))
                   else score);
          score = (if toLowerCase subject = queryLower then score + 80
                   else if includes_str (toLowerCase subject) queryLower then score + 75
                   else score);
          score = (if includes_str (toLowerCase description) queryLower then score + 40
                   else score)
      in if length queryLower \<ge> 4
         then (case fuzzyMatch query (title @ '' '' @ subject) of
                 Inl e \<Rightarrow> Inl e
               | Inr True \<Rightarrow> Inr (score + 20)
               | Inr False \<Rightarrow> Inr score)
         else Inr score)"


section \<open>The table computes the recurrence\<close>

lemma lev_rec_Nil2 [simp]: "lev_rec xs [] = length xs"
  by (cases xs) simp_all

lemma lev_rec_sym: "lev_rec xs ys = lev_rec ys xs"
  by (induction xs ys rule: lev_rec.induct) (auto simp: min.commute min.left_commute)

lemma lev_rec_refl [simp]: "lev_rec xs xs = 0"
  by (induction xs) simp_all

lemma fold_upt_invariant:
  assumes "lo \<le> hi" and "P lo s"
    and "\<And>k s. lo \<le> k \<Longrightarrow> k < hi \<Longrightarrow> P k s \<Longrightarrow> P (Suc k) (f k s)"
  shows "P hi (fold f [lo..<hi] s)"
  using assms
proof (induction hi)
  case 0
  then show ?case by simp
next
  case (Suc hi)
  show ?case
  proof (cases "lo = Suc hi")
    case True
    with Suc.prems show ?thesis by simp
  next
    case False
    with Suc.prems have le: "lo \<le> hi" by simp
    have "P hi (fold f [lo..<hi] s)"
      using le Suc.prems(2) Suc.prems(3) by (intro Suc.IH) auto
    then have "P (Suc hi) (f hi (fold f [lo..<hi] s))"
      using le by (intro Suc.prems(3)) auto
    with le show ?thesis by simp
  qed
qed

lemma dims_row: "dims m n dp \<Longrightarrow> i \<le> m \<Longrightarrow> length (dp ! i) = Suc n"
  by (simp add: dims_def)

lemma dims_store: "dims m n dp \<Longrightarrow> dims m n (store dp i j v)"
proof (cases "i < length dp")
  case True
  assume d: "dims m n dp"
  have "set (dp[i := (dp ! i)[j := v]]) \<subseteq> insert ((dp ! i)[j := v]) (set dp)"
    by (rule set_update_subset_insert)
  moreover have "length ((dp ! i)[j := v]) = Suc n"
    using d True by (simp add: dims_def)
  ultimately show ?thesis
    using d by (auto simp: dims_def store_def)
next
  case False
  assume "dims m n dp"
  with False show ?thesis by (simp add: store_def list_update_beyond)
qed

lemma cell_store:
  "dims m n dp \<Longrightarrow> i \<le> m \<Longrightarrow> j \<le> n \<Longrightarrow>
   cell (store dp i j v) i' j' = (if i' = i \<and> j' = j then v else cell dp i' j')"
  by (auto simp: dims_def store_def cell_def nth_list_update)

lemma dims_init: "dims m n (init_table m n)"
  by (auto simp: dims_def init_table_def)


lemma pre_col0: "i \<le> length a \<Longrightarrow> pre a b i 0 = i"
  by (simp add: pre_def)

lemma pre_row0: "j \<le> length b \<Longrightarrow> pre a b 0 j = j"
  by (simp add: pre_def)

lemma pre_step:
  assumes "i < length a" and "j < length b"
  shows "pre a b (Suc i) (Suc j) =
           (if a ! i = b ! j then pre a b i j
            else 1 + min (pre a b i (Suc j)) (min (pre a b (Suc i) j) (pre a b i j)))"
  using assms by (simp add: pre_def take_Suc_conv_app_nth)

lemma pre_full: "pre a b (length a) (length b) = lev_rec (rev a) (rev b)"
  by (simp add: pre_def)

lemma fill_col0_inv:
  "dims m n dp \<Longrightarrow> dims m n (fill_col0 m dp) \<and> (\<forall>i \<le> m. cell (fill_col0 m dp) i 0 = i)"
proof -
  assume d: "dims m n dp"
  let ?P = "\<lambda>k dp. dims m n dp \<and> (\<forall>i < k. cell dp i 0 = i)"
  have "?P (Suc m) (fold (\<lambda>i dp. store dp i 0 i) [0..<Suc m] dp)"
  proof (rule fold_upt_invariant [where P = ?P])
    show "0 \<le> Suc m" by simp
    show "?P 0 dp" using d by simp
  next
    fix k s
    assume "k < Suc m" and "?P k s"
    then show "?P (Suc k) (store s k 0 k)"
      by (auto simp: dims_store cell_store [where m = m and n = n] less_Suc_eq)
  qed
  then show ?thesis by (simp add: fill_col0_def less_Suc_eq_le)
qed

lemma fill_row0_inv:
  assumes "dims m n dp" and "\<forall>i \<le> m. cell dp i 0 = i"
  shows "dims m n (fill_row0 n dp) \<and> (\<forall>i \<le> m. cell (fill_row0 n dp) i 0 = i)
           \<and> (\<forall>j \<le> n. cell (fill_row0 n dp) 0 j = j)"
proof -
  let ?P = "\<lambda>k dp. dims m n dp \<and> (\<forall>i \<le> m. cell dp i 0 = i) \<and> (\<forall>j < k. cell dp 0 j = j)"
  have "?P (Suc n) (fold (\<lambda>j dp. store dp 0 j j) [0..<Suc n] dp)"
  proof (rule fold_upt_invariant [where P = ?P])
    show "0 \<le> Suc n" by simp
    show "?P 0 dp" using assms by simp
  next
    fix k s
    assume "k < Suc n" and "?P k s"
    then show "?P (Suc k) (store s 0 k k)"
      by (auto simp: dims_store cell_store [where m = m and n = n] less_Suc_eq)
  qed
  then show ?thesis by (simp add: fill_row0_def less_Suc_eq_le)
qed

lemma filled_start:
  "filled a b 1 1 (fill_row0 (length b) (fill_col0 (length a) (init_table (length a) (length b))))"
proof -
  let ?m = "length a" and ?n = "length b"
  have 1: "dims ?m ?n (fill_col0 ?m (init_table ?m ?n))"
    and 2: "\<forall>i \<le> ?m. cell (fill_col0 ?m (init_table ?m ?n)) i 0 = i"
    using fill_col0_inv [OF dims_init [of ?m ?n]] by simp_all
  from fill_row0_inv [OF 1 2] show ?thesis
    by (auto simp: filled_def pre_col0 pre_row0)
qed

lemma fill_cell_inv:
  assumes f: "filled a b i j dp" and i: "1 \<le> i" "i \<le> length a" and j: "1 \<le> j" "j \<le> length b"
  shows "filled a b i (Suc j) (fill_cell a b i j dp)"
proof -
  let ?m = "length a" and ?n = "length b"
  from f have d: "dims ?m ?n dp" by (simp add: filled_def)
  obtain i0 j0 where ij: "i = Suc i0" "j = Suc j0"
    using i j by (cases i; cases j) auto
  have known: "cell dp i0 j0 = pre a b i0 j0" "cell dp i0 j = pre a b i0 j"
    "cell dp i j0 = pre a b i j0"
    using f i j ij by (auto simp: filled_def)
  have new: "cell (fill_cell a b i j dp) i j = pre a b i j"
    using i j ij known d by (simp add: fill_cell_def cell_store [where m = ?m and n = ?n] pre_step)
  have old: "cell (fill_cell a b i j dp) i' j' = cell dp i' j'" if "\<not> (i' = i \<and> j' = j)" for i' j'
    using that i j d by (auto simp: fill_cell_def cell_store [where m = ?m and n = ?n])
  have dn: "dims ?m ?n (fill_cell a b i j dp)"
    using d by (simp add: fill_cell_def dims_store)
  show ?thesis
    unfolding filled_def
  proof (intro conjI allI impI)
    show "dims ?m ?n (fill_cell a b i j dp)" by (rule dn)
  next
    fix i' j'
    assume h: "i' \<le> ?m \<and> j' \<le> ?n \<and> (i' < i \<or> (i' = i \<and> j' < Suc j) \<or> i' = 0 \<or> j' = 0)"
    show "cell (fill_cell a b i j dp) i' j' = pre a b i' j'"
    proof (cases "i' = i \<and> j' = j")
      case True
      with new show ?thesis by simp
    next
      case False
      with h have "i' \<le> ?m \<and> j' \<le> ?n \<and> (i' < i \<or> (i' = i \<and> j' < j) \<or> i' = 0 \<or> j' = 0)"
        by auto
      with f have "cell dp i' j' = pre a b i' j'" by (simp add: filled_def)
      with old [OF False] show ?thesis by simp
    qed
  qed
qed

lemma fill_row_inv:
  assumes f: "filled a b i 1 dp" and i: "1 \<le> i" "i \<le> length a"
  shows "filled a b (Suc i) 1 (fill_row a b i dp)"
proof -
  let ?P = "\<lambda>k dp. filled a b i k dp"
  have "?P (Suc (length b)) (fold (fill_cell a b i) [1..<Suc (length b)] dp)"
  proof (rule fold_upt_invariant [where P = ?P])
    show "1 \<le> Suc (length b)" by simp
    show "?P 1 dp" by (rule f)
  next
    fix k s
    assume "1 \<le> k" and "k < Suc (length b)" and "?P k s"
    then show "?P (Suc k) (fill_cell a b i k s)"
      using i by (intro fill_cell_inv) auto
  qed
  then have "filled a b i (Suc (length b)) (fill_row a b i dp)"
    by (simp add: fill_row_def)
  then have d: "dims (length a) (length b) (fill_row a b i dp)"
    and c: "\<And>i' j'. i' \<le> length a \<Longrightarrow> j' \<le> length b \<Longrightarrow>
              i' < i \<or> (i' = i \<and> j' < Suc (length b)) \<or> i' = 0 \<or> j' = 0 \<Longrightarrow>
              cell (fill_row a b i dp) i' j' = pre a b i' j'"
    by (simp_all add: filled_def)
  show ?thesis
    unfolding filled_def
  proof (intro conjI allI impI)
    show "dims (length a) (length b) (fill_row a b i dp)" by (rule d)
  next
    fix i' j'
    assume "i' \<le> length a \<and> j' \<le> length b \<and> (i' < Suc i \<or> (i' = Suc i \<and> j' < 1) \<or> i' = 0 \<or> j' = 0)"
    then show "cell (fill_row a b i dp) i' j' = pre a b i' j'"
      by (intro c) auto
  qed
qed

lemma fill_table_inv:
  assumes "filled a b 1 1 dp"
  shows "filled a b (Suc (length a)) 1 (fill_table a b dp)"
proof -
  let ?P = "\<lambda>k dp. filled a b k 1 dp"
  have "?P (Suc (length a)) (fold (fill_row a b) [1..<Suc (length a)] dp)"
  proof (rule fold_upt_invariant [where P = ?P])
    show "1 \<le> Suc (length a)" by simp
    show "?P 1 dp" by (rule assms)
  next
    fix k s
    assume "1 \<le> k" and "k < Suc (length a)" and "?P k s"
    then show "?P (Suc k) (fill_row a b k s)"
      by (intro fill_row_inv) auto
  qed
  then show ?thesis by (simp add: fill_table_def)
qed

lemma levenshteinDistance_rec: "levenshteinDistance a b = lev_rec (rev a) (rev b)"
proof -
  have "filled a b (Suc (length a)) 1
          (fill_table a b (fill_row0 (length b) (fill_col0 (length a) (init_table (length a) (length b)))))"
    by (rule fill_table_inv [OF filled_start])
  then have "cell (fill_table a b (fill_row0 (length b) (fill_col0 (length a) (init_table (length a) (length b)))))
               (length a) (length b) = pre a b (length a) (length b)"
    by (simp add: filled_def)
  then show ?thesis
    by (simp add: levenshteinDistance_def Let_def pre_full)
qed


section \<open>The recurrence is the length of a shortest edit script\<close>

lemma lev_rec_cons:
  "lev_rec xs ys \<le> Suc (lev_rec (x # xs) ys) \<and> lev_rec (x # xs) ys \<le> Suc (lev_rec xs ys)"
proof (induction "length xs + length ys" arbitrary: xs ys x rule: less_induct)
  case less
  show ?case
  proof (cases ys)
    case Nil
    then show ?thesis by simp
  next
    case (Cons y ys')
    have a: "lev_rec xs ys' \<le> Suc (lev_rec (x # xs) ys')"
      using less [of xs ys' x] Cons by simp
    have "lev_rec ys' xs \<le> Suc (lev_rec (y # ys') xs) \<and> lev_rec (y # ys') xs \<le> Suc (lev_rec ys' xs)"
      using less [of ys' xs y] Cons by simp
    then have b: "lev_rec xs ys' \<le> Suc (lev_rec xs (y # ys'))"
      and c: "lev_rec xs (y # ys') \<le> Suc (lev_rec xs ys')"
      by (simp_all add: lev_rec_sym [of xs])
    show ?thesis
      using a b c Cons by auto
  qed
qed

lemma lev_rec_insert: "lev_rec xs ys \<le> Suc (lev_rec (x # xs) ys)"
  using lev_rec_cons [of xs ys x] by simp

lemma lev_rec_delete: "lev_rec (x # xs) ys \<le> Suc (lev_rec xs ys)"
  using lev_rec_cons [of xs ys x] by simp

lemma lev_rec_substitute: "lev_rec (c # xs) ys \<le> Suc (lev_rec (d # xs) ys)"
proof (cases ys)
  case Nil
  then show ?thesis by simp
next
  case (Cons y ys')
  have 1: "lev_rec (c # xs) (y # ys') \<le> Suc (lev_rec xs ys')"
    using lev_rec_insert [of xs ys' c] by auto
  have "lev_rec ys' xs \<le> Suc (lev_rec (y # ys') xs)"
    by (rule lev_rec_insert)
  then have 2: "lev_rec xs ys' \<le> Suc (lev_rec xs (y # ys'))"
    by (simp add: lev_rec_sym [of xs])
  have 3: "lev_rec xs ys' \<le> Suc (lev_rec (d # xs) ys')"
    by (rule lev_rec_insert)
  have "lev_rec xs ys' \<le> lev_rec (d # xs) (y # ys')"
    using 2 3 by auto
  with 1 Cons show ?thesis by simp
qed

lemma lev_rec_under_cons:
  assumes "\<And>zs. lev_rec u zs \<le> Suc (lev_rec u' zs)"
  shows "lev_rec (x # u) zs \<le> Suc (lev_rec (x # u') zs)"
proof (induction zs)
  case Nil
  from assms [of "[]"] show ?case by simp
next
  case (Cons z zs)
  from assms [of zs] assms [of "z # zs"] Cons show ?case by auto
qed

lemma lev_rec_under_prefix:
  assumes "\<And>zs. lev_rec u zs \<le> Suc (lev_rec u' zs)"
  shows "lev_rec (p @ u) zs \<le> Suc (lev_rec (p @ u') zs)"
proof (induction p arbitrary: zs)
  case Nil
  from assms show ?case by simp
next
  case (Cons x p)
  show ?case
    using lev_rec_under_cons [of "p @ u" "p @ u'" x zs] Cons by simp
qed

lemma apply_edit_lev_rec:
  assumes "apply_edit e xs = Some xs'"
  shows "lev_rec (rev xs) zs \<le> Suc (lev_rec (rev xs') zs)"
proof (cases e)
  case (Insert i c)
  with assms have i: "i \<le> length xs" and xs': "xs' = take i xs @ c # drop i xs"
    by (auto split: if_splits)
  have "rev xs = rev (drop i xs) @ rev (take i xs)"
    by (metis append_take_drop_id rev_append)
  moreover have "rev xs' = rev (drop i xs) @ c # rev (take i xs)"
    by (simp add: xs')
  ultimately show ?thesis
    using lev_rec_under_prefix [of "rev (take i xs)" "c # rev (take i xs)" "rev (drop i xs)" zs]
    by (simp add: lev_rec_insert)
next
  case (Delete i)
  with assms have i: "i < length xs" and xs': "xs' = take i xs @ drop (Suc i) xs"
    by (auto split: if_splits)
  have "xs = take i xs @ xs ! i # drop (Suc i) xs"
    using i by (rule id_take_nth_drop)
  then have "rev xs = rev (drop (Suc i) xs) @ xs ! i # rev (take i xs)"
    by (metis append.assoc append_Cons append_Nil rev.simps(2) rev_append)
  moreover have "rev xs' = rev (drop (Suc i) xs) @ rev (take i xs)"
    by (simp add: xs')
  ultimately show ?thesis
    using lev_rec_under_prefix [of "xs ! i # rev (take i xs)" "rev (take i xs)" "rev (drop (Suc i) xs)" zs]
    by (simp add: lev_rec_delete)
next
  case (Substitute i c)
  with assms have i: "i < length xs" and xs': "xs' = xs[i := c]"
    by (auto split: if_splits)
  have "xs = take i xs @ xs ! i # drop (Suc i) xs"
    using i by (rule id_take_nth_drop)
  then have "rev xs = rev (drop (Suc i) xs) @ xs ! i # rev (take i xs)"
    by (metis append.assoc append_Cons append_Nil rev.simps(2) rev_append)
  moreover have "rev xs' = rev (drop (Suc i) xs) @ c # rev (take i xs)"
    using i by (simp add: xs' upd_conv_take_nth_drop)
  ultimately show ?thesis
    using lev_rec_under_prefix [of "xs ! i # rev (take i xs)" "c # rev (take i xs)" "rev (drop (Suc i) xs)" zs]
    by (simp add: lev_rec_substitute)
qed

lemma apply_edits_lev_rec:
  "apply_edits es xs = Some ys \<Longrightarrow> lev_rec (rev xs) (rev ys) \<le> length es"
proof (induction es arbitrary: xs)
  case Nil
  then show ?case by simp
next
  case (Cons e es)
  then obtain xs' where 1: "apply_edit e xs = Some xs'" and 2: "apply_edits es xs' = Some ys"
    by (auto split: option.splits)
  from apply_edit_lev_rec [OF 1, of "rev ys"] Cons.IH [OF 2] show ?case by simp
qed

lemma apply_edit_suffix:
  "apply_edit e xs = Some ys \<Longrightarrow> apply_edit e (xs @ zs) = Some (ys @ zs)"
  by (cases e) (auto split: if_splits simp: list_update_append)

lemma apply_edits_suffix:
  "apply_edits es xs = Some ys \<Longrightarrow> apply_edits es (xs @ zs) = Some (ys @ zs)"
  by (induction es arbitrary: xs) (auto split: option.splits simp: apply_edit_suffix)

lemma edits_from_Nil: "\<exists>es. length es = length ys \<and> apply_edits es [] = Some ys"
proof (induction ys rule: rev_induct)
  case Nil
  have "length [] = length [] \<and> apply_edits [] ([]::'a list) = Some []" by simp
  then show ?case by blast
next
  case (snoc y ys)
  then obtain es where es: "length es = length ys" "apply_edits es [] = Some ys" by blast
  from apply_edits_suffix [OF es(2), of "[y]"]
  have "apply_edits (Insert 0 y # es) [] = Some (ys @ [y])" by simp
  with es(1) have "length (Insert 0 y # es) = length (ys @ [y]) \<and>
      apply_edits (Insert 0 y # es) [] = Some (ys @ [y])" by simp
  then show ?case by blast
qed

lemma edits_to_Nil: "\<exists>es. length es = length xs \<and> apply_edits es xs = Some []"
proof (induction xs)
  case Nil
  have "length [] = length [] \<and> apply_edits [] ([]::'a list) = Some []" by simp
  then show ?case by blast
next
  case (Cons x xs)
  then obtain es where es: "length es = length xs" "apply_edits es xs = Some []" by blast
  then have "length (Delete 0 # es) = length (x # xs) \<and> apply_edits (Delete 0 # es) (x # xs) = Some []"
    by simp
  then show ?case by blast
qed

lemma lev_rec_script: "\<exists>es. length es = lev_rec u v \<and> apply_edits es (rev u) = Some (rev v)"
proof (induction u v rule: lev_rec.induct)
  case (1 ys)
  from edits_from_Nil [of "rev ys"] show ?case by simp
next
  case (2 x xs)
  from edits_to_Nil [of "rev (x # xs)"] show ?case by simp
next
  case (3 x xs y ys)
  show ?case
  proof (cases "x = y")
    case True
    with 3 obtain es where es: "length es = lev_rec xs ys" "apply_edits es (rev xs) = Some (rev ys)"
      by blast
    from apply_edits_suffix [OF es(2), of "[x]"] es(1) True
    have "length es = lev_rec (x # xs) (y # ys) \<and> apply_edits es (rev (x # xs)) = Some (rev (y # ys))"
      by simp
    then show ?thesis by blast
  next
    case False
    let ?d = "lev_rec xs (y # ys)" and ?i = "lev_rec (x # xs) ys" and ?s = "lev_rec xs ys"
    consider (del) "min ?d (min ?i ?s) = ?d" | (ins) "min ?d (min ?i ?s) = ?i"
      | (sub) "min ?d (min ?i ?s) = ?s"
      by (metis min_def)
    then show ?thesis
    proof cases
      case del
      from 3 False obtain es where es: "length es = ?d" "apply_edits es (rev xs) = Some (rev (y # ys))"
        by blast
      have "length (Delete (length xs) # es) = lev_rec (x # xs) (y # ys) \<and>
            apply_edits (Delete (length xs) # es) (rev (x # xs)) = Some (rev (y # ys))"
        using es False del by simp
      then show ?thesis by blast
    next
      case ins
      from 3 False obtain es where es: "length es = ?i" "apply_edits es (rev (x # xs)) = Some (rev ys)"
        by blast
      from apply_edits_suffix [OF es(2), of "[y]"]
      have "length (Insert (Suc (length xs)) y # es) = lev_rec (x # xs) (y # ys) \<and>
            apply_edits (Insert (Suc (length xs)) y # es) (rev (x # xs)) = Some (rev (y # ys))"
        using es(1) False ins by simp
      then show ?thesis by blast
    next
      case sub
      from 3 False obtain es where es: "length es = ?s" "apply_edits es (rev xs) = Some (rev ys)"
        by blast
      from apply_edits_suffix [OF es(2), of "[y]"]
      have "length (Substitute (length xs) y # es) = lev_rec (x # xs) (y # ys) \<and>
            apply_edits (Substitute (length xs) y # es) (rev (x # xs)) = Some (rev (y # ys))"
        using es(1) False sub by (simp add: list_update_append)
      then show ?thesis by blast
    qed
  qed
qed

lemma apply_edits_append:
  "apply_edits es xs = Some ys \<Longrightarrow> apply_edits (es @ es') xs = apply_edits es' ys"
  by (induction es arbitrary: xs) (auto split: option.splits)

lemma edit_script_exists: "\<exists>es. length es = levenshteinDistance a b \<and> apply_edits es a = Some b"
  using lev_rec_script [of "rev a" "rev b"] by (simp add: levenshteinDistance_rec)

lemma edit_script_lower_bound: "apply_edits es a = Some b \<Longrightarrow> levenshteinDistance a b \<le> length es"
  by (simp add: levenshteinDistance_rec apply_edits_lev_rec)

lemma levenshteinDistance_le_sum:
  "levenshteinDistance a c \<le> levenshteinDistance a b + levenshteinDistance b c"
proof -
  obtain es1 where 1: "length es1 = levenshteinDistance a b" "apply_edits es1 a = Some b"
    using edit_script_exists by blast
  obtain es2 where 2: "length es2 = levenshteinDistance b c" "apply_edits es2 b = Some c"
    using edit_script_exists by blast
  have "apply_edits (es1 @ es2) a = Some c"
    using apply_edits_append [OF 1(2)] 2(2) by simp
  then have "levenshteinDistance a c \<le> length (es1 @ es2)"
    by (rule edit_script_lower_bound)
  with 1(1) 2(1) show ?thesis by simp
qed


section \<open>Properties of \<open>levenshteinDistance\<close>\<close>

text \<open>
  C2. For every pair of strings \<open>a\<close> and \<open>b\<close>, \<open>levenshteinDistance a b\<close> is the minimum
  number of single-character insertions, deletions and substitutions that transform
  \<open>a\<close> into \<open>b\<close>: some edit script of that length turns \<open>a\<close> into \<open>b\<close>, and no edit
  script that turns \<open>a\<close> into \<open>b\<close> is shorter. In particular the distance between
  \<open>kitten\<close> and \<open>sitting\<close> is 3.
\<close>

theorem levenshteinDistance_minimal_edits:
  "(\<exists>es. length es = levenshteinDistance a b \<and> apply_edits es a = Some b) \<and>
   (\<forall>es. apply_edits es a = Some b \<longrightarrow> levenshteinDistance a b \<le> length es) \<and>
   levenshteinDistance ''kitten'' ''sitting'' = 3"
proof (intro conjI allI impI)
  show "\<exists>es. length es = levenshteinDistance a b \<and> apply_edits es a = Some b"
    by (rule edit_script_exists)
next
  fix es
  assume "apply_edits es a = Some b"
  then show "levenshteinDistance a b \<le> length es"
    by (rule edit_script_lower_bound)
next
  show "levenshteinDistance ''kitten'' ''sitting'' = 3"
    by (simp add: levenshteinDistance_rec)
qed

theorem levenshteinDistance_minimal_edits_witness:
  "apply_edits [Substitute 0 CHR ''s'', Substitute 4 CHR ''i'', Insert 6 CHR ''g''] ''kitten''
     = Some ''sitting'' \<and>
   levenshteinDistance ''kitten'' ''sitting'' \<le> 3"
proof -
  let ?es = "[Substitute 0 CHR ''s'', Substitute 4 CHR ''i'', Insert 6 CHR ''g'']"
  have h: "apply_edits ?es ''kitten'' = Some ''sitting''" by simp
  have "\<forall>es. apply_edits es ''kitten'' = Some ''sitting''
          \<longrightarrow> levenshteinDistance ''kitten'' ''sitting'' \<le> length es"
    using levenshteinDistance_minimal_edits [of "''kitten''" "''sitting''"] by blast
  then have "levenshteinDistance ''kitten'' ''sitting'' \<le> length ?es"
    using h by blast
  with h show ?thesis by simp
qed

text \<open>
  C7. \<open>levenshteinDistance\<close> is symmetric: for every pair of strings \<open>a\<close> and \<open>b\<close>,
  \<open>levenshteinDistance a b\<close> equals \<open>levenshteinDistance b a\<close>.
\<close>

theorem levenshteinDistance_symmetric:
  "levenshteinDistance a b = levenshteinDistance b a"
  by (simp add: levenshteinDistance_rec lev_rec_sym [of "rev a"])

text \<open>
  C8. \<open>levenshteinDistance\<close> satisfies the triangle inequality: for all strings \<open>a\<close>,
  \<open>b\<close> and \<open>c\<close>, \<open>levenshteinDistance a c\<close> is at most
  \<open>levenshteinDistance a b + levenshteinDistance b c\<close>.
\<close>

theorem levenshteinDistance_triangle:
  "levenshteinDistance a c \<le> levenshteinDistance a b + levenshteinDistance b c"
  by (rule levenshteinDistance_le_sum)


section \<open>Strings: substrings, trimming and splitting\<close>

lemma includes_str_sublist: "includes_str t s \<longleftrightarrow> sublist s t"
  by (induction t) (simp_all add: sublist_Cons_right)

lemma includes_str_Nil [simp]: "includes_str t []"
  by (simp add: includes_str_sublist)

lemma sublist_trim: "sublist (trim t) t"
proof -
  let ?u = "dropWhile isWhiteSpace t"
  have "suffix (dropWhile isWhiteSpace (rev ?u)) (rev ?u)"
    by (rule suffix_dropWhile)
  then have "prefix (trim t) ?u"
    by (simp add: trim_def suffix_to_prefix)
  then have "sublist (trim t) ?u"
    by (rule prefix_imp_sublist)
  moreover have "sublist ?u t"
    by (rule suffix_imp_sublist) (rule suffix_dropWhile)
  ultimately show ?thesis
    by (rule sublist_order.order_trans)
qed

lemma isWhiteSpace_toLowerCase_unit [simp]: "isWhiteSpace (toLowerCase_unit c) \<longleftrightarrow> isWhiteSpace c"
  by (auto simp: isWhiteSpace_def toLowerCase_unit_def Let_def)

lemma split_ws_not_Nil [simp]: "split_ws s \<noteq> []"
  by (induction s rule: split_ws.induct) (auto split: list.splits)

lemma toLowerCase_Nil [simp]: "toLowerCase [] = []"
  by (simp add: toLowerCase_def)



section \<open>Properties of \<open>fuzzyMatch\<close>\<close>




lemma trim_whitespace:
  assumes "\<forall>c \<in> set s. isWhiteSpace c"
  shows "trim (toLowerCase s) = []"
proof -
  have "\<forall>c \<in> set (toLowerCase s). isWhiteSpace c"
    using assms by (auto simp: toLowerCase_def)
  then have e: "dropWhile isWhiteSpace (toLowerCase s) = []"
    by (rule iffD2 [OF dropWhile_eq_Nil_conv])
  show ?thesis unfolding trim_def e by simp
qed

lemma blank_term_matches:
  assumes "\<forall>c \<in> set s. isWhiteSpace c"
  shows "fuzzyMatch s t = Inr True"
  by (simp add: fuzzyMatch_def Let_def trim_whitespace [OF assms])

text \<open>
  C5. The abbreviation table makes \<open>math\<close> and \<open>maths\<close> interchangeable in both
  directions: \<open>fuzzyMatch "maths" "I love math"\<close> and \<open>fuzzyMatch "math" "I love maths"\<close>
  both return true, and for both pairs the forward rule and the reverse rule over the
  table hold. The first call finds no substring and returns at the forward rule; the
  second call returns at the substring rule already, \<open>math\<close> being a substring of
  \<open>maths\<close>.
\<close>

theorem fuzzyMatch_math_maths:
  "fuzzyMatch ''maths'' ''I love math'' = Inr True \<and>
   fuzzyMatch ''math'' ''I love maths'' = Inr True \<and>
   \<not> includes_str (toLowerCase ''I love math'') (trim (toLowerCase ''maths'')) \<and>
   forward_abbreviation (trim (toLowerCase ''maths'')) (toLowerCase ''I love math'') = Inr True \<and>
   reverse_abbreviation (trim (toLowerCase ''maths'')) (toLowerCase ''I love math'') \<and>
   includes_str (toLowerCase ''I love maths'') (trim (toLowerCase ''math'')) \<and>
   forward_abbreviation (trim (toLowerCase ''math'')) (toLowerCase ''I love maths'') = Inr True \<and>
   reverse_abbreviation (trim (toLowerCase ''math'')) (toLowerCase ''I love maths'')"
  by code_simp



text \<open>
  C9. \<open>fuzzyMatch\<close> is reflexive: for every string \<open>s\<close>, and so for every non-empty one,
  \<open>fuzzyMatch s s\<close> returns true, and it does so at the exact substring rule: the
  lowercased text includes the lowercased and trimmed term.
\<close>

theorem fuzzyMatch_reflexive:
  "fuzzyMatch s s = Inr True \<and> includes_str (toLowerCase s) (trim (toLowerCase s))"
  by (simp add: fuzzyMatch_def Let_def includes_str_sublist sublist_trim)

text \<open>
  C10. For every target text \<open>t\<close>, \<open>fuzzyMatch s t\<close> returns true whenever the search term
  \<open>s\<close> is empty or consists of white space only: the trimmed, lowercased term is the
  empty string, which every string includes, so the exact substring rule succeeds.
\<close>

theorem fuzzyMatch_blank_term:
  "(\<forall>c \<in> set s. isWhiteSpace c) \<Longrightarrow>
   trim (toLowerCase s) = [] \<and> includes_str (toLowerCase t) (trim (toLowerCase s)) \<and>
   fuzzyMatch s t = Inr True"
  by (simp add: trim_whitespace blank_term_matches)

theorem fuzzyMatch_blank_term_witness:
  "list_all isWhiteSpace [CHR '' '', CHR 0x09, CHR 0xA0] \<and>
   fuzzyMatch [CHR '' '', CHR 0x09, CHR 0xA0] ''Biology'' = Inr True \<and>
   fuzzyMatch [] ''Biology'' = Inr True"
proof -
  have h: "\<forall>c \<in> set [CHR '' '', CHR 0x09, CHR 0xA0]. isWhiteSpace c" by code_simp
  have e: "\<forall>c \<in> set ([]::string). isWhiteSpace c" by simp
  from fuzzyMatch_blank_term [OF h, of "''Biology''"] fuzzyMatch_blank_term [OF e, of "''Biology''"] h
  show ?thesis unfolding list_all_iff by blast
qed


section \<open>Properties of \<open>calculateMatchScore\<close>\<close>

lemma overlap_fraction:
  fixes k n :: nat
  assumes "k \<le> n" and "0 < n"
  shows "0 \<le> (of_nat k / of_nat n :: rat) \<and> (of_nat k / of_nat n :: rat) \<le> 1"
  using assms by simp

lemma calculateMatchScore_bounds:
  assumes "calculateMatchScore query title description subject = Inr v"
  shows "0 \<le> v \<and> v \<le> 310"
proof -
  let ?titleWords = "split_ws (toLowerCase title)"
  let ?k = "length (filter (\<lambda>w. list_ex (\<lambda>qw. includes_str w qw \<or> includes_str qw w)
                (split_ws (toLowerCase query))) ?titleWords)"
  have "?k \<le> length ?titleWords" by (rule length_filter_le)
  moreover have "0 < length ?titleWords" by simp
  ultimately have r: "0 \<le> (of_nat ?k / of_nat (length ?titleWords) :: rat) \<and>
      (of_nat ?k / of_nat (length ?titleWords) :: rat) \<le> 1"
    by (rule overlap_fraction)
  define r :: rat where "r = of_nat ?k / of_nat (length ?titleWords)"
  from r have "0 \<le> r \<and> r \<le> 1" by (simp add: r_def)
  then show ?thesis
    using assms unfolding calculateMatchScore_def Let_def r_def [symmetric]
    by (auto split: if_splits sum.splits bool.splits)
qed

lemma calculateMatchScore_error:
  assumes "calculateMatchScore query title description subject = Inl e"
  shows "trim (toLowerCase query) \<in> set object_prototype_properties"
proof -
  from assms have "fuzzyMatch query (title @ '' '' @ subject) = Inl e"
    unfolding calculateMatchScore_def Let_def by (auto split: if_splits sum.splits bool.splits)
  then have "forward_abbreviation (trim (toLowerCase query)) (toLowerCase (title @ '' '' @ subject)) = Inl e"
    unfolding fuzzyMatch_def Let_def by (auto split: if_splits sum.splits bool.splits)
  then show ?thesis
    by (auto simp: forward_abbreviation_def get_property_def split: option.splits if_splits property.splits)
qed

lemma empty_record_score_ge_70:
  assumes "calculateMatchScore query [] [] [] = Inr v"
  shows "70 \<le> v"
proof -
  obtain w ws where q: "split_ws (toLowerCase query) = w # ws"
    by (cases "split_ws (toLowerCase query)") simp_all
  show ?thesis
    using assms unfolding calculateMatchScore_def Let_def
    by (auto simp: q includes_str_sublist split: if_splits sum.splits bool.splits)
qed

text \<open>
  C1. The claim: a query that matches nothing scores 0 against a record whose title,
  description and subject are all empty, the word-overlap rule contributing nothing for
  an empty title. The code: the empty title splits into one empty word, the empty word
  is included in every query word, so the word-overlap rule counts one match out of one
  title word and adds the full 70. For the query \<open>zzz\<close> no other rule holds (no exact or
  partial title or subject match, no description match, the query is too short for the
  fuzzy bonus and \<open>fuzzyMatch\<close> is false anyway) and the score is 70, not 0.
\<close>

theorem calculateMatchScore_empty_record_zzz:
  "calculateMatchScore ''zzz'' [] [] [] = Inr 70 \<and>
   split_ws (toLowerCase []) = [[]] \<and>
   includes_str ''zzz'' [] \<and>
   toLowerCase [] \<noteq> toLowerCase ''zzz'' \<and>
   \<not> includes_str (toLowerCase []) (toLowerCase ''zzz'') \<and>
   \<not> 4 \<le> length (toLowerCase ''zzz'') \<and>
   fuzzyMatch ''zzz'' ([] @ '' '' @ []) = Inr False"
  by code_simp

text \<open>
  C3. \<open>calculateMatchScore "maths" "Mathematics 101" "intro course" "Maths"\<close> is exactly
  100: the title is neither equal to the query nor includes it, no title word overlaps
  a query word, the description does not include the query, the subject equals the
  query (80), and the query has 5 characters and \<open>fuzzyMatch\<close> succeeds on the text
  \<open>Mathematics 101 Maths\<close> by the substring rule (20).
\<close>

theorem calculateMatchScore_maths_example:
  "calculateMatchScore ''maths'' ''Mathematics 101'' ''intro course'' ''Maths'' = Inr 100 \<and>
   toLowerCase ''Mathematics 101'' \<noteq> toLowerCase ''maths'' \<and>
   \<not> includes_str (toLowerCase ''Mathematics 101'') (toLowerCase ''maths'') \<and>
   filter (\<lambda>w. list_ex (\<lambda>qw. includes_str w qw \<or> includes_str qw w) (split_ws (toLowerCase ''maths'')))
     (split_ws (toLowerCase ''Mathematics 101'')) = [] \<and>
   toLowerCase ''Maths'' = toLowerCase ''maths'' \<and>
   \<not> includes_str (toLowerCase ''intro course'') (toLowerCase ''maths'') \<and>
   4 \<le> length (toLowerCase ''maths'') \<and>
   ''Mathematics 101'' @ '' '' @ ''Maths'' = ''Mathematics 101 Maths'' \<and>
   fuzzyMatch ''maths'' ''Mathematics 101 Maths'' = Inr True \<and>
   includes_str (toLowerCase ''Mathematics 101 Maths'') (trim (toLowerCase ''maths''))"
  by code_simp

text \<open>
  C4. The claim: for every query, title, description and subject the function returns a
  number between 0 and 310. The code: every score it returns is in that range
  (\<open>calculateMatchScore_bounds\<close>), but it does not return for every input. For the query
  \<open>constructor\<close> and a title and subject that do not contain it, the fuzzy bonus calls
  \<open>fuzzyMatch\<close>, the read \<open>abbreviations["constructor"]\<close> finds the inherited property
  of \<open>Object.prototype\<close>, and iterating over it throws a \<open>TypeError\<close>.
\<close>

theorem calculateMatchScore_constructor:
  "calculateMatchScore ''constructor'' ''Java basics'' ''classes and objects'' ''Computing''
     = Inl TypeError \<and>
   fuzzyMatch ''constructor'' ''Java basics Computing'' = Inl TypeError \<and>
   get_property abbreviations ''constructor'' = Inherited"
  by code_simp

end
